theory Spec2Isabelle
  imports Complex_Main "HOL-Library.Sublist" "HOL-Library.Multiset"
begin

section \<open>Python values\<close>

text \<open>
  A Python \<open>str\<close> is a sequence of code points. The embedding writes it as a HOL
  \<open>string\<close>, one \<open>char\<close> per code point, which covers the code points
  U+0000 to U+00FF. \<open>length\<close> is Python's \<open>len\<close> and \<open>take n\<close> is the
  slice \<open>[:n]\<close>.

  The values \<open>json.loads\<close> can produce: \<open>None\<close>, \<open>bool\<close>, \<open>int\<close> (unbounded),
  \<open>float\<close>, \<open>str\<close>, \<open>list\<close> and \<open>dict\<close>. A \<open>dict\<close> is an association list in
  insertion order. A float is kept as the exact rational it denotes, or one of the three
  special values; \<open>json.loads\<close> accepts the literals \<open>NaN\<close>, \<open>Infinity\<close> and
  \<open>-Infinity\<close>.
\<close>

datatype pyfloat = Finite rat | PosInf | NegInf | NaN

datatype pyval =
    PNone
  | PBool bool
  | PInt int
  | PFloat pyfloat
  | PStr string
  | PList "pyval list"
  | PDict "(string \<times> pyval) list"

type_synonym pydict = "(string \<times> pyval) list"

text \<open>\<open>d.get(k)\<close> is \<open>map_of d k\<close>; \<open>d[k] = v\<close> replaces the value of an existing key in
  place and appends a new key at the end.\<close>

fun setitem :: "string \<Rightarrow> pyval \<Rightarrow> pydict \<Rightarrow> pydict" where
  "setitem k v [] = [(k, v)]"
| "setitem k v (p # ps) = (if fst p = k then (k, v) # ps else p # setitem k v ps)"

section \<open>String operations used on the model response\<close>

text \<open>\<open>str.strip()\<close> removes leading and trailing whitespace. Among the code points up to
  U+00FF, \<open>str.isspace\<close> holds of U+0009..U+000D, U+001C..U+0020, U+0085 and U+00A0.\<close>

definition is_space :: "char \<Rightarrow> bool" where
  "is_space c =
     (let n = (of_char c :: nat)
      in (9 \<le> n \<and> n \<le> 13) \<or> (28 \<le> n \<and> n \<le> 32) \<or> n = 133 \<or> n = 160)"

definition strip :: "string \<Rightarrow> string" where
  "strip s = rev (dropWhile is_space (rev (dropWhile is_space s)))"

text \<open>\<open>sub in s\<close>: \<open>sub\<close> occurs in \<open>s\<close> as a contiguous run.\<close>

fun contains :: "string \<Rightarrow> string \<Rightarrow> bool" where
  "contains sub [] = (sub = [])"
| "contains sub (c # cs) = (prefix sub (c # cs) \<or> contains sub cs)"

text \<open>\<open>s.split(sep)\<close> for a non-empty separator: the pieces between the occurrences of
  \<open>sep\<close>, found from left to right without overlap. The accumulator holds the current
  piece reversed.\<close>

function split_acc :: "string \<Rightarrow> string \<Rightarrow> string \<Rightarrow> string list" where
  "split_acc sep acc [] = [rev acc]"
| "split_acc sep acc (c # cs) =
     (if sep \<noteq> [] \<and> prefix sep (c # cs)
      then rev acc # split_acc sep [] (drop (length sep) (c # cs))
      else split_acc sep (c # acc) cs)"
  by pat_completeness auto
termination
  by (relation "measure (\<lambda>(sep, acc, s). length s)") auto

definition split :: "string \<Rightarrow> string \<Rightarrow> string list" where
  "split sep s = split_acc sep [] s"

text \<open>Indexing a list raises \<open>IndexError\<close> out of range; the value kept is the message
  of the exception, which is what \<open>score_lead\<close> reports.\<close>

definition item :: "'a list \<Rightarrow> nat \<Rightarrow> string + 'a" where
  "item xs i = (if i < length xs then Inr (xs ! i) else Inl ''list index out of range'')"

text \<open>Lines 66 to 74 of \<open>score_lead\<close>: the response is stripped; if it contains the
  fence \<open>```json\<close>, the text after its first occurrence and before the next \<open>```\<close> is
  taken and stripped; otherwise, if it contains \<open>```\<close>, the text between its first two
  occurrences is taken and stripped. \<open>Inl\<close> is an exception raised on the way.\<close>

definition clean_response :: "string \<Rightarrow> string + string" where
  "clean_response text =
     (let response_text = strip text
      in if contains ''```json'' response_text then
           (case item (split ''```json'' response_text) 1 of
              Inl e \<Rightarrow> Inl e
            | Inr after \<Rightarrow>
                (case item (split ''```'' after) 0 of
                   Inl e \<Rightarrow> Inl e
                 | Inr inner \<Rightarrow> Inr (strip inner)))
         else if contains ''```'' response_text then
           (case item (split ''```'' response_text) 1 of
              Inl e \<Rightarrow> Inl e
            | Inr after \<Rightarrow>
                (case item (split ''```'' after) 0 of
                   Inl e \<Rightarrow> Inl e
                 | Inr inner \<Rightarrow> Inr (strip inner)))
         else Inr response_text)"

section \<open>Scoring one inquiry\<close>

text \<open>
  \<open>score_lead\<close> talks to three collaborators that are not part of the program; each is an
  argument of the embedding.
  \<^item> The inference request (lines 58 to 66, up to and including \<open>.text\<close>): it yields the
    response text, or raises. The program tells a \<open>json.JSONDecodeError\<close> raised there
    (no \<open>response_text\<close> exists yet) from any other exception; both carry \<open>str(e)\<close>.
  \<^item> \<open>json.loads\<close>: it yields a value, raises \<open>json.JSONDecodeError\<close>, or raises something
    else (\<open>RecursionError\<close> on deep nesting, \<open>ValueError\<close> on an over-long integer).
  \<^item> \<open>datetime.now().isoformat()\<close>: the timestamp string.
\<close>

datatype api_outcome =
    Reply string
  | RaisesDecodeError string
  | Raises string

datatype loads_result =
    Decoded pyval
  | DecodeError string
  | OtherError string

text \<open>\<open>result["status"] = ...\<close> on a value that is not a \<open>dict\<close> raises \<open>TypeError\<close>;
  this is \<open>str(e)\<close> of that exception.\<close>

definition no_item_assignment :: "string \<Rightarrow> string" where
  "no_item_assignment tyname =
     [CHR 0x27] @ tyname @ [CHR 0x27] @ '' object does not support item assignment''"

fun setitem_error :: "pyval \<Rightarrow> string" where
  "setitem_error PNone = no_item_assignment ''NoneType''"
| "setitem_error (PBool b) = no_item_assignment ''bool''"
| "setitem_error (PInt i) = no_item_assignment ''int''"
| "setitem_error (PFloat f) = no_item_assignment ''float''"
| "setitem_error (PStr s) = no_item_assignment ''str''"
| "setitem_error (PList xs) = ''list indices must be integers or slices, not str''"
| "setitem_error (PDict d) = []"

text \<open>The record of the \<open>except json.JSONDecodeError\<close> handler (lines 85 to 91).\<close>

definition decode_failure :: "string \<Rightarrow> string \<Rightarrow> pydict" where
  "decode_failure msg raw =
     [(''score'', PNone),
      (''status'', PStr ''failed''),
      (''error'', PStr (''JSON parsing error: '' @ msg)),
      (''raw_response'', PStr raw)]"

text \<open>The record of the \<open>except Exception\<close> handler (lines 93 to 99).\<close>

definition call_failure :: "string \<Rightarrow> string \<Rightarrow> pydict" where
  "call_failure msg inquiry_text =
     [(''score'', PNone),
      (''status'', PStr ''failed''),
      (''error'', PStr msg),
      (''original_inquiry'', PStr (take 150 inquiry_text @ ''...''))]"

text \<open>Lines 78 to 81, on a decoded \<open>dict\<close>. The conditional expression of lines 79 and 80
  binds weaker than \<open>+\<close>: the marker is appended only in the long branch.\<close>

definition enrich :: "string \<Rightarrow> string \<Rightarrow> pydict \<Rightarrow> pydict" where
  "enrich now inquiry_text result =
     setitem ''timestamp'' (PStr now)
       (setitem ''original_inquiry''
          (PStr (if length inquiry_text > 150 then take 150 inquiry_text @ ''...''
                 else inquiry_text))
          (setitem ''status'' (PStr ''success'') result))"

definition score_lead ::
  "(string \<Rightarrow> loads_result) \<Rightarrow> api_outcome \<Rightarrow> string \<Rightarrow> string \<Rightarrow> pydict" where
  "score_lead loads outcome now inquiry_text =
     (case outcome of
        RaisesDecodeError msg \<Rightarrow> decode_failure msg ''No response''
      | Raises msg \<Rightarrow> call_failure msg inquiry_text
      | Reply text \<Rightarrow>
          (case clean_response text of
             Inl msg \<Rightarrow> call_failure msg inquiry_text
           | Inr response_text \<Rightarrow>
               (case loads response_text of
                  DecodeError msg \<Rightarrow> decode_failure msg response_text
                | OtherError msg \<Rightarrow> call_failure msg inquiry_text
                | Decoded v \<Rightarrow>
                    (case v of
                       PDict result \<Rightarrow> enrich now inquiry_text result
                     | _ \<Rightarrow> call_failure (setitem_error v) inquiry_text))))"

section \<open>The credential\<close>

text \<open>Lines 7 and 8: \<open>os.environ.get("ANTHROPIC_API_KEY") or "api-key-here"\<close>. The
  environment maps names to strings; \<open>x or y\<close> is \<open>y\<close> when \<open>x\<close> is \<open>None\<close> or the
  empty string, and \<open>x\<close> otherwise.\<close>

definition api_key :: "(string \<rightharpoonup> string) \<Rightarrow> string" where
  "api_key environ =
     (case environ ''ANTHROPIC_API_KEY'' of
        None \<Rightarrow> ''api-key-here''
      | Some v \<Rightarrow> if v = [] then ''api-key-here'' else v)"

section \<open>Comparing and adding scores\<close>

text \<open>
  The exceptions that leave \<open>score_multiple_leads\<close> and \<open>save_lead_scores\<close>.
\<close>

datatype exn = TypeError | OverflowError | OSError

text \<open>
  \<open>int\<close>, \<open>bool\<close> and \<open>float\<close> are Python's numbers: \<open>True\<close> and \<open>False\<close> count as 1 and
  0, and an \<open>int\<close> is compared with a \<open>float\<close> by exact value. Every comparison with NaN
  is false.
\<close>

fun num_value :: "pyval \<Rightarrow> pyfloat option" where
  "num_value (PInt i) = Some (Finite (of_int i))"
| "num_value (PBool b) = Some (Finite (if b then 1 else 0))"
| "num_value (PFloat f) = Some f"
| "num_value v = None"

fun fl_lt :: "pyfloat \<Rightarrow> pyfloat \<Rightarrow> bool" where
  "fl_lt (Finite a) (Finite b) = (a < b)"
| "fl_lt (Finite a) PosInf = True"
| "fl_lt NegInf (Finite b) = True"
| "fl_lt NegInf PosInf = True"
| "fl_lt x y = False"

fun fl_le :: "pyfloat \<Rightarrow> pyfloat \<Rightarrow> bool" where
  "fl_le (Finite a) (Finite b) = (a \<le> b)"
| "fl_le NaN y = False"
| "fl_le x NaN = False"
| "fl_le x PosInf = True"
| "fl_le NegInf y = True"
| "fl_le x y = False"

text \<open>
  \<open>a < b\<close>, \<open>a <= b\<close> and \<open>a >= b\<close> where one side is a score. Two numbers compare as
  above. For every other pair the embedding raises \<open>TypeError\<close>. That is Python's answer
  whenever the other side is a number, as it is in the band tests of lines 131 to 133.
  In the sort of line 125 both sides are scores, and Python does order two strings or
  two lists; but every score that is not a number then meets \<open>>= 7\<close> in line 131,
  which raises the same \<open>TypeError\<close>, so \<open>score_multiple_leads\<close> ends the same way.
\<close>

definition py_cmp :: "(pyfloat \<Rightarrow> pyfloat \<Rightarrow> bool) \<Rightarrow> pyval \<Rightarrow> pyval \<Rightarrow> exn + bool" where
  "py_cmp rel a b =
     (case num_value a of
        None \<Rightarrow> Inl TypeError
      | Some x \<Rightarrow> (case num_value b of None \<Rightarrow> Inl TypeError | Some y \<Rightarrow> Inr (rel x y)))"

definition py_lt :: "pyval \<Rightarrow> pyval \<Rightarrow> exn + bool" where
  "py_lt a b = py_cmp fl_lt a b"

definition py_le :: "pyval \<Rightarrow> pyval \<Rightarrow> exn + bool" where
  "py_le a b = py_cmp fl_le a b"

definition py_ge :: "pyval \<Rightarrow> pyval \<Rightarrow> exn + bool" where
  "py_ge a b = py_cmp (\<lambda>x y. fl_le y x) a b"

text \<open>
  Float arithmetic rounds. The rounding of an exact value to the nearest double is the
  argument \<open>rnd\<close>; a result of magnitude \<open>2^1024 - 2^970\<close> or more does not fit a double.
  Converting such an \<open>int\<close> or dividing two \<open>int\<close>s with such a quotient raises
  \<open>OverflowError\<close>; adding two floats gives an infinity instead.
\<close>

definition dbl_limit :: rat where
  "dbl_limit = 2 ^ 1024 - 2 ^ 970"

definition to_float :: "(rat \<Rightarrow> rat) \<Rightarrow> int \<Rightarrow> exn + pyfloat" where
  "to_float rnd i =
     (if \<bar>of_int i\<bar> < dbl_limit then Inr (Finite (rnd (of_int i))) else Inl OverflowError)"

definition fl_round :: "(rat \<Rightarrow> rat) \<Rightarrow> rat \<Rightarrow> pyfloat" where
  "fl_round rnd q =
     (if dbl_limit \<le> q then PosInf else if q \<le> - dbl_limit then NegInf else Finite (rnd q))"

fun fl_add :: "(rat \<Rightarrow> rat) \<Rightarrow> pyfloat \<Rightarrow> pyfloat \<Rightarrow> pyfloat" where
  "fl_add rnd (Finite a) (Finite b) = fl_round rnd (a + b)"
| "fl_add rnd NaN y = NaN"
| "fl_add rnd x NaN = NaN"
| "fl_add rnd PosInf NegInf = NaN"
| "fl_add rnd NegInf PosInf = NaN"
| "fl_add rnd PosInf y = PosInf"
| "fl_add rnd x PosInf = PosInf"
| "fl_add rnd NegInf y = NegInf"
| "fl_add rnd x NegInf = NegInf"

fun int_value :: "pyval \<Rightarrow> int option" where
  "int_value (PInt i) = Some i"
| "int_value (PBool b) = Some (if b then 1 else 0)"
| "int_value v = None"

text \<open>\<open>a + b\<close>: exact on two \<open>int\<close>s; with a float on either side the \<open>int\<close> side is
  converted first.\<close>

definition py_add :: "(rat \<Rightarrow> rat) \<Rightarrow> pyval \<Rightarrow> pyval \<Rightarrow> exn + pyval" where
  "py_add rnd a b =
     (case (int_value a, int_value b) of
        (Some i, Some j) \<Rightarrow> Inr (PInt (i + j))
      | (Some i, None) \<Rightarrow>
          (case b of
             PFloat y \<Rightarrow>
               (case to_float rnd i of Inl e \<Rightarrow> Inl e | Inr x \<Rightarrow> Inr (PFloat (fl_add rnd x y)))
           | _ \<Rightarrow> Inl TypeError)
      | (None, Some j) \<Rightarrow>
          (case a of
             PFloat x \<Rightarrow>
               (case to_float rnd j of Inl e \<Rightarrow> Inl e | Inr y \<Rightarrow> Inr (PFloat (fl_add rnd x y)))
           | _ \<Rightarrow> Inl TypeError)
      | (None, None) \<Rightarrow>
          (case (a, b) of
             (PFloat x, PFloat y) \<Rightarrow> Inr (PFloat (fl_add rnd x y))
           | _ \<Rightarrow> Inl TypeError))"

text \<open>\<open>sum(...)\<close> adds from the left, starting at the \<open>int\<close> 0. (CPython 3.12 and later
  compensate the rounding error of a sum of floats, which is not modelled; a sum of
  \<open>int\<close>s is exact in every version.)\<close>

fun py_sum :: "(rat \<Rightarrow> rat) \<Rightarrow> pyval \<Rightarrow> pyval list \<Rightarrow> exn + pyval" where
  "py_sum rnd acc [] = Inr acc"
| "py_sum rnd acc (v # vs) =
     (case py_add rnd acc v of Inl e \<Rightarrow> Inl e | Inr acc' \<Rightarrow> py_sum rnd acc' vs)"

text \<open>\<open>score_sum / n\<close> for a count \<open>n > 0\<close>: the quotient of two \<open>int\<close>s is rounded once; a
  float is divided by the count.\<close>

definition py_truediv :: "(rat \<Rightarrow> rat) \<Rightarrow> pyval \<Rightarrow> nat \<Rightarrow> exn + pyval" where
  "py_truediv rnd score_sum n =
     (case score_sum of
        PFloat (Finite a) \<Rightarrow> Inr (PFloat (Finite (rnd (a / of_nat n))))
      | PFloat x \<Rightarrow> Inr (PFloat x)
      | _ \<Rightarrow>
          (case int_value score_sum of
             None \<Rightarrow> Inl TypeError
           | Some s \<Rightarrow>
               if \<bar>of_int s / of_nat n\<bar> < dbl_limit
               then Inr (PFloat (Finite (rnd (of_int s / of_nat n))))
               else Inl OverflowError))"

section \<open>Scoring a batch\<close>

record analytics =
  total_leads :: nat
  scored_successfully :: nat
  hot_leads_count :: nat
  warm_leads_count :: nat
  cold_leads_count :: nat
  average_score :: pyval

record batch_result =
  all_results :: "pydict list"
  sorted_by_priority :: "pydict list"
  analytics :: analytics

text \<open>\<open>r.get("status") == "success"\<close> and \<open>r.get("score", 0)\<close>.\<close>

definition is_success :: "pydict \<Rightarrow> bool" where
  "is_success r = (map_of r ''status'' = Some (PStr ''success''))"

definition get_score :: "pydict \<Rightarrow> pyval" where
  "get_score r = (case map_of r ''score'' of None \<Rightarrow> PInt 0 | Some v \<Rightarrow> v)"

text \<open>
  Line 125, \<open>successful_leads.sort(key=..., reverse=True)\<close>. \<open>list.sort\<close> compares keys
  with \<open><\<close> only, is stable, and with \<open>reverse=True\<close> keeps equal keys in their original
  order. The embedding is the insertion sort with these properties: an element goes
  behind exactly the elements whose key is greater. Where \<open><\<close> orders the keys (numbers,
  none of them NaN) this is the one list a stable descending sort can return. With a NaN
  among two or more keys Python's order depends on the merge steps of \<open>list.sort\<close> and
  may differ from this one.
\<close>

fun insert_desc :: "pydict \<Rightarrow> pydict list \<Rightarrow> exn + pydict list" where
  "insert_desc x [] = Inr [x]"
| "insert_desc x (y # ys) =
     (case py_lt (get_score x) (get_score y) of
        Inl e \<Rightarrow> Inl e
      | Inr smaller \<Rightarrow>
          if smaller
          then (case insert_desc x ys of Inl e \<Rightarrow> Inl e | Inr zs \<Rightarrow> Inr (y # zs))
          else Inr (x # y # ys))"

fun sort_desc :: "pydict list \<Rightarrow> exn + pydict list" where
  "sort_desc [] = Inr []"
| "sort_desc (x # xs) =
     (case sort_desc xs of Inl e \<Rightarrow> Inl e | Inr ys \<Rightarrow> insert_desc x ys)"

text \<open>The three band tests of lines 131 to 133 and the length of a filtered list.\<close>

definition is_hot :: "pyval \<Rightarrow> exn + bool" where
  "is_hot v = py_ge v (PInt 7)"

definition is_warm :: "pyval \<Rightarrow> exn + bool" where
  "is_warm v =
     (case py_le (PInt 4) v of
        Inl e \<Rightarrow> Inl e
      | Inr lower \<Rightarrow> if lower then py_lt v (PInt 7) else Inr False)"

definition is_cold :: "pyval \<Rightarrow> exn + bool" where
  "is_cold v = py_lt v (PInt 4)"

fun count_band :: "(pyval \<Rightarrow> exn + bool) \<Rightarrow> pydict list \<Rightarrow> exn + nat" where
  "count_band band [] = Inr 0"
| "count_band band (r # rs) =
     (case band (get_score r) of
        Inl e \<Rightarrow> Inl e
      | Inr hit \<Rightarrow>
          (case count_band band rs of
             Inl e \<Rightarrow> Inl e
           | Inr n \<Rightarrow> Inr (if hit then Suc n else n)))"

text \<open>Line 134.\<close>

definition average :: "(rat \<Rightarrow> rat) \<Rightarrow> pydict list \<Rightarrow> exn + pyval" where
  "average rnd successful_leads =
     (if successful_leads = [] then Inr (PInt 0)
      else (case py_sum rnd (PInt 0) (map get_score successful_leads) of
              Inl e \<Rightarrow> Inl e
            | Inr score_sum \<Rightarrow> py_truediv rnd score_sum (length successful_leads)))"

text \<open>
  \<open>score_multiple_leads\<close>. The request of the \<open>i\<close>-th inquiry (counted from 1, as the loop
  does) has the outcome \<open>api i inquiry\<close> and is stamped \<open>now i\<close>. The progress lines
  printed by the loop are not part of the result.
\<close>

definition score_all ::
  "(string \<Rightarrow> loads_result) \<Rightarrow> (nat \<Rightarrow> string \<Rightarrow> api_outcome) \<Rightarrow> (nat \<Rightarrow> string) \<Rightarrow>
   string list \<Rightarrow> pydict list" where
  "score_all loads api now inquiry_list =
     map (\<lambda>(i, inquiry). score_lead loads (api i inquiry) (now i) inquiry)
       (enumerate 1 inquiry_list)"

definition score_multiple_leads ::
  "(string \<Rightarrow> loads_result) \<Rightarrow> (nat \<Rightarrow> string \<Rightarrow> api_outcome) \<Rightarrow> (nat \<Rightarrow> string) \<Rightarrow>
   (rat \<Rightarrow> rat) \<Rightarrow> string list \<Rightarrow> exn + batch_result" where
  "score_multiple_leads loads api now rnd inquiry_list =
     (let results = score_all loads api now inquiry_list
      in case sort_desc (filter is_success results) of
           Inl e \<Rightarrow> Inl e
         | Inr successful_leads \<Rightarrow>
             (case count_band is_hot successful_leads of
                Inl e \<Rightarrow> Inl e
              | Inr hot \<Rightarrow>
                  (case count_band is_warm successful_leads of
                     Inl e \<Rightarrow> Inl e
                   | Inr warm \<Rightarrow>
                       (case count_band is_cold successful_leads of
                          Inl e \<Rightarrow> Inl e
                        | Inr cold \<Rightarrow>
                            (case average rnd successful_leads of
                               Inl e \<Rightarrow> Inl e
                             | Inr avg \<Rightarrow>
                                 Inr \<lparr>all_results = results,
                                      sorted_by_priority = successful_leads,
                                      analytics =
                                        \<lparr>total_leads = length results,
                                         scored_successfully = length successful_leads,
                                         hot_leads_count = hot,
                                         warm_leads_count = warm,
                                         cold_leads_count = cold,
                                         average_score = avg\<rparr>\<rparr>)))))"

section \<open>Saving the results\<close>

text \<open>
  \<open>datetime.now()\<close> is an argument. \<open>strftime("%Y%m%d_%H%M%S")\<close> writes the year in four
  digits and each other field in two, zero-padded.
\<close>

record datetime =
  year :: nat
  month :: nat
  day :: nat
  hour :: nat
  minute :: nat
  second :: nat

definition digit :: "nat \<Rightarrow> char" where
  "digit n = ''0123456789'' ! (n mod 10)"

definition pad2 :: "nat \<Rightarrow> string" where
  "pad2 n = [digit (n div 10), digit n]"

definition pad4 :: "nat \<Rightarrow> string" where
  "pad4 n = [digit (n div 1000), digit (n div 100), digit (n div 10), digit n]"

definition strftime_compact :: "datetime \<Rightarrow> string" where
  "strftime_compact t =
     pad4 (year t) @ pad2 (month t) @ pad2 (day t) @ ''_'' @
     pad2 (hour t) @ pad2 (minute t) @ pad2 (second t)"

text \<open>
  \<open>save_lead_scores\<close>. The file system maps a path to the text of its file;
  \<open>open(filename, 'w')\<close> raises \<open>OSError\<close> on a path it cannot open (\<open>can_open\<close>), and
  the exception leaves the function. \<open>dump\<close> is the text \<open>json.dump(..., indent=2)\<close>
  writes for the results.
\<close>

definition save_lead_scores ::
  "('r \<Rightarrow> string) \<Rightarrow> (string \<Rightarrow> bool) \<Rightarrow> datetime \<Rightarrow> (string \<rightharpoonup> string) \<Rightarrow>
   'r \<Rightarrow> string option \<Rightarrow> exn + ((string \<rightharpoonup> string) \<times> string)" where
  "save_lead_scores dump can_open now fs scoring_results filename =
     (let filename =
            (case filename of
               None \<Rightarrow> ''lead_scores_'' @ strftime_compact now @ ''.json''
             | Some name \<Rightarrow> name)
      in if can_open filename
         then Inr (fs(filename \<mapsto> dump scoring_results), filename)
         else Inl OSError)"

text \<open>
  For stating the shape of the derived name: the decimal digits, the number a run of
  digits denotes, and the clock values \<open>datetime.now()\<close> can give from the year 1000 on
  (below that the year is not written in four digits on every platform).
\<close>

definition is_digit :: "char \<Rightarrow> bool" where
  "is_digit c = (48 \<le> (of_char c :: nat) \<and> (of_char c :: nat) \<le> 57)"

definition decimal :: "string \<Rightarrow> nat" where
  "decimal s = foldl (\<lambda>a c. 10 * a + (of_char c - 48)) 0 s"

definition clock_in_range :: "datetime \<Rightarrow> bool" where
  "clock_in_range t =
     (1000 \<le> year t \<and> year t \<le> 9999 \<and> 1 \<le> month t \<and> month t \<le> 12 \<and>
      1 \<le> day t \<and> day t \<le> 31 \<and> hour t \<le> 23 \<and> minute t \<le> 59 \<and> second t \<le> 59)"

section \<open>Fenced content the cleanup recovers\<close>

text \<open>
  Content that the split-based cleanup takes out of a fence unchanged: it contains no
  \<open>```\<close>, is not empty, does not begin with a backtick or the letter \<open>j\<close>, and does
  not end with a backtick. A JSON object, with or without whitespace around it, is of
  this kind unless one of its strings contains \<open>```\<close>.
\<close>

definition fence_safe :: "string \<Rightarrow> bool" where
  "fence_safe inner =
     (\<not> contains ''```'' inner \<and> inner \<noteq> [] \<and>
      hd inner \<noteq> CHR ''j'' \<and> hd inner \<noteq> CHR 0x60 \<and> last inner \<noteq> CHR 0x60)"

section \<open>Vocabulary for the batch properties\<close>

text \<open>
  A result's score is numeric when it is an \<open>int\<close>, a \<open>bool\<close> or a \<open>float\<close> (an absent
  score counts as the \<open>int\<close> 0); it is ordered when it is moreover not NaN. \<open>score_ge a b\<close>
  says that the score of \<open>a\<close> is at least that of \<open>b\<close>, in Python's \<open>>=\<close>, and
  \<open>same_score\<close> that the two scores are equal in that order.
\<close>

definition numeric_score :: "pydict \<Rightarrow> bool" where
  "numeric_score r = (num_value (get_score r) \<noteq> None)"

definition ordered_score :: "pydict \<Rightarrow> bool" where
  "ordered_score r = (\<exists>x. num_value (get_score r) = Some x \<and> x \<noteq> NaN)"

definition score_ge :: "pydict \<Rightarrow> pydict \<Rightarrow> bool" where
  "score_ge a b = (py_ge (get_score a) (get_score b) = Inr True)"

definition same_score :: "pydict \<Rightarrow> pydict \<Rightarrow> bool" where
  "same_score a b = (score_ge a b \<and> score_ge b a)"

text \<open>
  The score as an integer, where it is an \<open>int\<close> or a \<open>bool\<close> (or absent), and the results
  whose score is such an integer of a magnitude that fits a double.
\<close>

definition score_int :: "pydict \<Rightarrow> int" where
  "score_int r = (case int_value (get_score r) of Some i \<Rightarrow> i | None \<Rightarrow> 0)"

definition int_scored :: "pydict \<Rightarrow> bool" where
  "int_scored r =
     (case int_value (get_score r) of None \<Rightarrow> False | Some i \<Rightarrow> \<bar>of_int i\<bar> < dbl_limit)"

section \<open>Stubs for the collaborators\<close>

text \<open>
  A decoder that knows a handful of texts, with the values \<open>json.loads\<close> gives for them,
  and rejects every other text; a request that answers with the inquiry itself, or fails
  with a connection error on the inquiry \<open>down\<close>; a fixed clock. They stand in for the
  collaborators wherever a property is evaluated on a concrete input.
\<close>

definition stub_loads :: "string \<Rightarrow> loads_result" where
  "stub_loads t =
     (if t = ''{\"score\": 8}'' then Decoded (PDict [(''score'', PInt 8)])
      else if t = ''{\"score\": 5}'' then Decoded (PDict [(''score'', PInt 5)])
      else if t = ''{\"score\": 5, \"priority\": \"MEDIUM\"}'' then
        Decoded (PDict [(''score'', PInt 5), (''priority'', PStr ''MEDIUM'')])
      else if t = ''{\"score\": 2}'' then Decoded (PDict [(''score'', PInt 2)])
      else if t = ''{\"score\": null}'' then Decoded (PDict [(''score'', PNone)])
      else if t = ''{\"score\": NaN}'' then Decoded (PDict [(''score'', PFloat NaN)])
      else if t = ''{}'' then Decoded (PDict [])
      else if t = ''[]'' then Decoded (PList [])
      else if t = ''{\"a\": \"```\"}'' then Decoded (PDict [(''a'', PStr ''```'')])
      else if t = ''{\"a\": \"'' then
        DecodeError ''Unterminated string starting at: line 1 column 7 (char 6)''
      else DecodeError ''Expecting value: line 1 column 1 (char 0)'')"

definition echo :: "nat \<Rightarrow> string \<Rightarrow> api_outcome" where
  "echo i inquiry =
     (if inquiry = ''down'' then Raises ''Connection error.'' else Reply inquiry)"

definition stub_now :: "nat \<Rightarrow> string" where
  "stub_now i = ''2024-03-09T14:05:00''"

section \<open>Properties of the single-inquiry scorer\<close>

lemma map_of_setitem:
  "map_of (setitem k v d) k' = (if k' = k then Some v else map_of d k')"
  by (induction d) auto

lemma split_acc_nonempty: "split_acc sep acc s \<noteq> []"
  by (induction sep acc s rule: split_acc.induct) auto

lemma split_acc_contains:
  "sep \<noteq> [] \<Longrightarrow> contains sep s \<Longrightarrow> 2 \<le> length (split_acc sep acc s)"
proof (induction sep acc s rule: split_acc.induct)
  case (1 sep acc)
  then show ?case by simp
next
  case (2 sep acc c cs)
  show ?case
  proof (cases "prefix sep (c # cs)")
    case True
    have "split_acc sep [] (drop (length sep) (c # cs)) \<noteq> []"
      by (rule split_acc_nonempty)
    then have "1 \<le> length (split_acc sep [] (drop (length sep) (c # cs)))"
      by (cases "split_acc sep [] (drop (length sep) (c # cs))") auto
    with True "2.prems" show ?thesis by simp
  next
    case False
    with "2.prems" have "contains sep cs" by simp
    with False "2.prems" "2.IH"(2) show ?thesis by simp
  qed
qed

lemma split_contains: "sep \<noteq> [] \<Longrightarrow> contains sep s \<Longrightarrow> 1 < length (split sep s)"
  using split_acc_contains [of sep s "[]"] by (simp add: split_def)

lemma split_first: "0 < length (split sep s)"
  using split_acc_nonempty [of sep "[]" s] by (simp add: split_def)

text \<open>The two index reads of the fence cleanup are always in range.\<close>

lemma fenced_piece:
  assumes "sep \<noteq> []" and "contains sep s"
  shows "\<exists>t. (case item (split sep s) 1 of
                Inl e \<Rightarrow> Inl e
              | Inr after \<Rightarrow>
                  (case item (split ''```'' after) 0 of
                     Inl e \<Rightarrow> Inl e
                   | Inr inner \<Rightarrow> Inr (strip inner))) = (Inr t :: string + string)"
proof -
  from assms have "item (split sep s) 1 = Inr (split sep s ! 1)"
    using split_contains [of sep s] by (simp add: item_def)
  moreover have "\<And>u. item (split ''```'' u) 0 = Inr (split ''```'' u ! 0)"
    using split_first by (simp add: item_def)
  ultimately show ?thesis by simp
qed

lemma clean_response_returns: "\<exists>t. clean_response text = Inr t"
proof (cases "contains ''```json'' (strip text)")
  case True
  then show ?thesis
    using fenced_piece [of "''```json''" "strip text"]
    by (simp add: clean_response_def)
next
  case False
  show ?thesis
  proof (cases "contains ''```'' (strip text)")
    case True
    with False show ?thesis
      using fenced_piece [of "''```''" "strip text"]
      by (simp add: clean_response_def)
  next
    case no: False
    with False show ?thesis by (simp add: clean_response_def)
  qed
qed

text \<open>The record has \<open>status = success\<close> exactly when the request answered and the
  cleaned answer decoded to a \<open>dict\<close>.\<close>

lemma is_success_iff:
  "is_success (score_lead loads outcome now q) \<longleftrightarrow>
   (\<exists>text t d. outcome = Reply text \<and> clean_response text = Inr t \<and>
      loads t = Decoded (PDict d))"
  using clean_response_returns
  by (auto simp: is_success_def score_lead_def decode_failure_def call_failure_def enrich_def
      map_of_setitem
      split: api_outcome.splits sum.splits loads_result.splits pyval.splits)

lemma success_record:
  assumes "is_success (score_lead loads outcome now q)"
  shows "\<exists>d. score_lead loads outcome now q = enrich now q d"
proof -
  from assms obtain reply t d where
    "outcome = Reply reply" "clean_response reply = Inr t" "loads t = Decoded (PDict d)"
    unfolding is_success_iff by blast
  then have "score_lead loads outcome now q = enrich now q d"
    by (simp add: score_lead_def)
  then show ?thesis by blast
qed

text \<open>
  C3. On the success path the field \<open>original_inquiry\<close> is the inquiry itself when it has
  at most 150 characters, and otherwise its first 150 characters followed by \<open>...\<close>, 153
  characters in all.
\<close>

theorem score_lead_success_original_inquiry:
  assumes "is_success (score_lead loads outcome now q)"
  shows "\<exists>s. map_of (score_lead loads outcome now q) ''original_inquiry'' = Some (PStr s) \<and>
           (length q \<le> 150 \<longrightarrow> s = q) \<and>
           (150 < length q \<longrightarrow> s = take 150 q @ ''...'' \<and> length s = 153)"
proof -
  from assms obtain d where "score_lead loads outcome now q = enrich now q d"
    using success_record by blast
  then show ?thesis
    by (simp add: enrich_def map_of_setitem)
qed

theorem score_lead_success_original_inquiry_witness:
  "is_success (score_lead stub_loads (Reply ''{}'') ''T'' (replicate 151 (CHR ''a''))) \<and>
   map_of (score_lead stub_loads (Reply ''{}'') ''T'' (replicate 151 (CHR ''a'')))
     ''original_inquiry'' = Some (PStr (replicate 150 (CHR ''a'') @ ''...'')) \<and>
   is_success (score_lead stub_loads (Reply ''{}'') ''T'' ''hi'') \<and>
   map_of (score_lead stub_loads (Reply ''{}'') ''T'' ''hi'') ''original_inquiry'' =
     Some (PStr ''hi'')"
  using score_lead_success_original_inquiry
          [of stub_loads "Reply ''{}''" "''T''" "replicate 151 (CHR ''a'')"]
        score_lead_success_original_inquiry [of stub_loads "Reply ''{}''" "''T''" "''hi''"]
  by (simp add: is_success_def score_lead_def clean_response_def strip_def is_space_def
      stub_loads_def enrich_def)

text \<open>
  C5. When the request fails with an exception other than a decode error, the record has
  \<open>status = failed\<close> and the message, but \<open>original_inquiry\<close> is the first 150 characters
  of the inquiry followed by \<open>...\<close> whatever the length: the two-character inquiry
  \<open>hi\<close> comes back as \<open>hi...\<close>, where the success path (lines 79 and 80) returns it
  verbatim.
\<close>

theorem score_lead_call_failure_short_inquiry:
  "score_lead loads (Raises ''Connection error.'') now ''hi'' =
     [(''score'', PNone),
      (''status'', PStr ''failed''),
      (''error'', PStr ''Connection error.''),
      (''original_inquiry'', PStr ''hi...'')]"
  by (simp add: score_lead_def call_failure_def)

text \<open>
  C10. The placeholder is used when the variable is absent and also when it is set to
  the empty string; any other value is used as it is.
\<close>

theorem api_key_fallback:
  "api_key (environ(''ANTHROPIC_API_KEY'' := None)) = ''api-key-here'' \<and>
   api_key (environ(''ANTHROPIC_API_KEY'' \<mapsto> [])) = ''api-key-here'' \<and>
   api_key (environ(''ANTHROPIC_API_KEY'' \<mapsto> v)) = (if v = [] then ''api-key-here'' else v)"
  by (simp add: api_key_def)

section \<open>Properties of the fence cleanup\<close>

lemma strip_surrounding:
  assumes "\<forall>c\<in>set ws1. is_space c" and "\<forall>c\<in>set ws2. is_space c"
  shows "strip (ws1 @ t @ ws2) = strip t"
proof -
  have a: "dropWhile is_space (ws1 @ t @ ws2) =
             (if \<forall>c\<in>set t. is_space c then [] else dropWhile is_space t @ ws2)"
    using assms by (auto simp: dropWhile_append)
  have b: "dropWhile is_space (rev ws2 @ r) = dropWhile is_space r" for r
    using assms(2) by (simp add: dropWhile_append)
  show ?thesis
  proof (cases "\<forall>c\<in>set t. is_space c")
    case True
    then have e: "dropWhile is_space t = []" by simp
    show ?thesis unfolding strip_def a e using True by simp
  next
    case False
    then have "dropWhile is_space (ws1 @ t @ ws2) = dropWhile is_space t @ ws2"
      unfolding a by auto
    then show ?thesis by (simp add: strip_def b)
  qed
qed

lemma strip_id:
  assumes "s \<noteq> []" and "\<not> is_space (hd s)" and "\<not> is_space (last s)"
  shows "strip s = s"
proof -
  from assms have "dropWhile is_space s = s" by (cases s) auto
  moreover from assms have "dropWhile is_space (rev s) = rev s"
    by (cases "rev s") (auto simp: hd_rev)
  ultimately show ?thesis by (simp add: strip_def)
qed

lemma prefix_drop_contains: "prefix sub (drop i s) \<Longrightarrow> contains sub s"
proof (induction s arbitrary: i)
  case Nil
  then show ?case by simp
next
  case (Cons c cs)
  then show ?case by (cases i) auto
qed

lemma contains_sublist: "contains sub s \<longleftrightarrow> sublist sub s"
  by (induction s) (auto simp: sublist_Cons_right)

lemma contains_strip: "contains sub (strip s) \<Longrightarrow> contains sub s"
proof -
  have "suffix (dropWhile is_space s) s" by (rule suffix_dropWhile)
  moreover have "suffix (dropWhile is_space (rev (dropWhile is_space s))) (rev (dropWhile is_space s))"
    by (rule suffix_dropWhile)
  then have "prefix (strip s) (dropWhile is_space s)"
    by (simp add: strip_def suffix_to_prefix)
  ultimately have "sublist (strip s) s"
    by (meson prefix_imp_sublist suffix_imp_sublist sublist_order.order.trans)
  then show "contains sub (strip s) \<Longrightarrow> contains sub s"
    unfolding contains_sublist using sublist_order.order.trans by blast
qed

lemma split_acc_first:
  assumes "sep \<noteq> []" and "\<forall>i<length a. \<not> prefix sep (drop i (a @ sep @ b))"
  shows "split_acc sep acc (a @ sep @ b) = (rev acc @ a) # split_acc sep [] b"
  using assms(2)
proof (induction a arbitrary: acc)
  case Nil
  from assms(1) obtain c cs where sep: "sep = c # cs" by (cases sep) auto
  then have "split_acc sep acc (sep @ b) = rev acc # split_acc sep [] (drop (length sep) (sep @ b))"
    by simp
  then show ?case by simp
next
  case (Cons x a)
  from Cons.prems have "\<not> prefix sep ((x # a) @ sep @ b)" by force
  moreover from Cons.prems have "\<forall>i<length a. \<not> prefix sep (drop i (a @ sep @ b))" by force
  ultimately show ?case using Cons.IH [of "x # acc"] by simp
qed

lemma split_acc_none: "\<not> contains sep s \<Longrightarrow> split_acc sep acc s = [rev acc @ s]"
  by (induction s arbitrary: acc) auto

lemma tail_backtick:
  assumes "d \<noteq> []" and "prefix ''```'' (d @ r)" and "\<not> prefix ''```'' d"
  shows "last d = CHR 0x60"
proof (cases d)
  case Nil
  with assms(1) show ?thesis by simp
next
  case d1: (Cons x d1)
  show ?thesis
  proof (cases d1)
    case Nil
    with d1 assms(2) show ?thesis by simp
  next
    case d2: (Cons y d2)
    show ?thesis
    proof (cases d2)
      case Nil
      with d1 d2 assms(2) show ?thesis by auto
    next
      case (Cons z d3)
      with d1 d2 assms(2,3) show ?thesis by auto
    qed
  qed
qed

lemma no_early_fence:
  assumes "\<not> contains ''```'' inner" and "inner = [] \<or> last inner \<noteq> CHR 0x60"
  shows "\<forall>i<length inner. \<not> prefix ''```'' (drop i (inner @ ''```'' @ b))"
proof (intro allI impI notI)
  fix i
  assume i: "i < length inner" and p: "prefix ''```'' (drop i (inner @ ''```'' @ b))"
  have d: "drop i inner \<noteq> []" using i by simp
  from p i have "prefix ''```'' (drop i inner @ (''```'' @ b))" by simp
  moreover have "\<not> prefix ''```'' (drop i inner)"
    using assms(1) prefix_drop_contains by blast
  ultimately have "last (drop i inner) = CHR 0x60"
    using tail_backtick d by blast
  moreover have "last (drop i inner) = last inner" using i by simp
  ultimately show False using assms(2) i by auto
qed

lemma contains_position:
  assumes "contains sub s"
  shows "\<exists>i. i + length sub \<le> length s \<and> prefix sub (drop i s)"
proof -
  from assms obtain ps ss where "s = ps @ sub @ ss"
    unfolding contains_sublist sublist_def by blast
  then have "length ps + length sub \<le> length s \<and> prefix sub (drop (length ps) s)"
    by simp
  then show ?thesis by blast
qed

lemma no_json_fence:
  assumes "\<not> contains ''```'' inner" and "inner = [] \<or> last inner \<noteq> CHR 0x60"
  shows "\<not> contains ''```json'' (inner @ ''```'')"
proof
  assume "contains ''```json'' (inner @ ''```'')"
  then obtain i where i: "i + length ''```json'' \<le> length (inner @ ''```'')"
    and p: "prefix ''```json'' (drop i (inner @ ''```''))"
    using contains_position by blast
  have "prefix ''```'' ''```json''" by simp
  with p have "prefix ''```'' (drop i (inner @ ''```'' @ []))"
    using prefix_order.trans by fastforce
  moreover from i have "i < length inner" by simp
  ultimately show False using no_early_fence [OF assms, of "[]"] by blast
qed

lemma contains_json_fence: "contains ''```json'' s \<Longrightarrow> contains ''```'' s"
proof -
  assume "contains ''```json'' s"
  then obtain i where "prefix ''```json'' (drop i s)"
    using contains_position by blast
  moreover have "prefix ''```'' ''```json''" by simp
  ultimately have "prefix ''```'' (drop i s)"
    using prefix_order.trans by blast
  then show ?thesis by (rule prefix_drop_contains)
qed

lemma clean_json_fence:
  assumes ws: "\<forall>c\<in>set ws1. is_space c" "\<forall>c\<in>set ws2. is_space c"
    and nf: "\<not> contains ''```'' inner" and lst: "inner = [] \<or> last inner \<noteq> CHR 0x60"
  shows "clean_response (ws1 @ ''```json'' @ inner @ ''```'' @ ws2) = Inr (strip inner)"
proof -
  let ?F = "''```json'' @ inner @ ''```''"
  have "strip ?F = ?F"
    by (rule strip_id) (simp_all add: is_space_def)
  then have s: "strip (ws1 @ ''```json'' @ inner @ ''```'' @ ws2) = ?F"
    using strip_surrounding [OF ws, of ?F] by simp
  have c: "contains ''```json'' ?F" by simp
  have "split_acc ''```json'' [] ([] @ ''```json'' @ (inner @ ''```'')) =
          (rev [] @ []) # split_acc ''```json'' [] (inner @ ''```'')"
    by (rule split_acc_first) simp_all
  moreover have "split_acc ''```json'' [] (inner @ ''```'') = [rev [] @ (inner @ ''```'')]"
    by (rule split_acc_none) (rule no_json_fence [OF nf lst])
  ultimately have p1: "split ''```json'' ?F = [[], inner @ ''```'']"
    by (simp add: split_def)
  have "split_acc ''```'' [] (inner @ ''```'' @ []) = (rev [] @ inner) # split_acc ''```'' [] []"
    by (rule split_acc_first) (simp, rule no_early_fence [OF nf lst])
  then have p2: "split ''```'' (inner @ ''```'') = [inner, []]"
    by (simp add: split_def)
  show ?thesis
    unfolding clean_response_def s Let_def using c by (simp add: p1 [simplified] p2 [simplified] item_def)
qed

lemma clean_plain_fence:
  assumes ws: "\<forall>c\<in>set ws1. is_space c" "\<forall>c\<in>set ws2. is_space c"
    and safe: "fence_safe inner"
  shows "clean_response (ws1 @ ''```'' @ inner @ ''```'' @ ws2) = Inr (strip inner)"
proof -
  from safe have nf: "\<not> contains ''```'' inner" and lst: "inner = [] \<or> last inner \<noteq> CHR 0x60"
    by (simp_all add: fence_safe_def)
  from safe obtain x inner' where inner: "inner = x # inner'" "x \<noteq> CHR ''j''" "x \<noteq> CHR 0x60"
    by (cases inner) (auto simp: fence_safe_def)
  let ?F = "''```'' @ inner @ ''```''"
  have "strip ?F = ?F"
    by (rule strip_id) (simp_all add: is_space_def)
  then have s: "strip (ws1 @ ''```'' @ inner @ ''```'' @ ws2) = ?F"
    using strip_surrounding [OF ws, of ?F] by simp
  have nj: "\<not> contains ''```json'' ?F"
    using no_json_fence [OF nf lst] inner by simp
  have c: "contains ''```'' ?F" by simp
  have "split_acc ''```'' [] ([] @ ''```'' @ (inner @ ''```'')) =
          (rev [] @ []) # split_acc ''```'' [] (inner @ ''```'')"
    by (rule split_acc_first) simp_all
  moreover
  have "split_acc ''```'' [] (inner @ ''```'' @ []) = (rev [] @ inner) # split_acc ''```'' [] []"
    by (rule split_acc_first) (simp, rule no_early_fence [OF nf lst])
  ultimately have p1: "split ''```'' ?F = [[], inner, []]"
    by (simp add: split_def)
  have p2: "split ''```'' inner = [inner]"
    using split_acc_none [OF nf, of "[]"] by (simp add: split_def)
  show ?thesis
    unfolding clean_response_def s Let_def using c nj by (simp add: p1 [simplified] p2 [simplified] item_def)
qed

lemma clean_bare:
  assumes ws: "\<forall>c\<in>set ws1. is_space c" "\<forall>c\<in>set ws2. is_space c"
    and nf: "\<not> contains ''```'' inner"
  shows "clean_response (ws1 @ inner @ ws2) = Inr (strip inner)"
proof -
  have s: "strip (ws1 @ inner @ ws2) = strip inner"
    by (rule strip_surrounding [OF ws])
  from nf have a: "\<not> contains ''```'' (strip inner)"
    using contains_strip by blast
  then have b: "\<not> contains ''```json'' (strip inner)"
    using contains_json_fence by blast
  show ?thesis
    unfolding clean_response_def s Let_def using a b by simp
qed

lemma clean_response_strips:
  assumes ws: "\<forall>c\<in>set ws1. is_space c" "\<forall>c\<in>set ws2. is_space c"
  shows "clean_response (ws1 @ t @ ws2) = clean_response t"
  unfolding clean_response_def strip_surrounding [OF ws] ..

text \<open>
  C7 (amended). The response is stripped of surrounding whitespace before anything else.
  When what remains is a \<open>```json\<close> fence or a bare \<open>```\<close> fence around content that
  contains no \<open>```\<close>, does not begin with a backtick or the letter \<open>j\<close> and does not end
  with a backtick, the text handed to the decoder is that content, stripped; so such
  content gives the same record wrapped in either fence as it gives bare.
\<close>

theorem fence_cleanup:
  assumes "list_all is_space ws1" and "list_all is_space ws2" and "fence_safe inner"
  shows "clean_response (ws1 @ t @ ws2) = clean_response t \<and>
         clean_response (ws1 @ ''```json'' @ inner @ ''```'' @ ws2) = Inr (strip inner) \<and>
         clean_response (ws1 @ ''```'' @ inner @ ''```'' @ ws2) = Inr (strip inner) \<and>
         clean_response (ws1 @ inner @ ws2) = Inr (strip inner) \<and>
         score_lead loads (Reply (ws1 @ ''```json'' @ inner @ ''```'' @ ws2)) now q =
           score_lead loads (Reply (ws1 @ inner @ ws2)) now q \<and>
         score_lead loads (Reply (ws1 @ ''```'' @ inner @ ''```'' @ ws2)) now q =
           score_lead loads (Reply (ws1 @ inner @ ws2)) now q"
proof -
  from assms(1,2) have ws: "\<forall>c\<in>set ws1. is_space c" "\<forall>c\<in>set ws2. is_space c"
    by (simp_all add: list_all_iff)
  from assms(3) have nf: "\<not> contains ''```'' inner" and lst: "inner = [] \<or> last inner \<noteq> CHR 0x60"
    by (simp_all add: fence_safe_def)
  have a: "clean_response (ws1 @ t @ ws2) = clean_response t"
    by (rule clean_response_strips [OF ws])
  have b: "clean_response (ws1 @ ''```json'' @ inner @ ''```'' @ ws2) = Inr (strip inner)"
    by (rule clean_json_fence [OF ws nf lst])
  have c: "clean_response (ws1 @ ''```'' @ inner @ ''```'' @ ws2) = Inr (strip inner)"
    by (rule clean_plain_fence [OF ws assms(3)])
  have d: "clean_response (ws1 @ inner @ ws2) = Inr (strip inner)"
    by (rule clean_bare [OF ws nf])
  have e: "score_lead loads (Reply (ws1 @ ''```json'' @ inner @ ''```'' @ ws2)) now q =
           score_lead loads (Reply (ws1 @ inner @ ws2)) now q"
    unfolding score_lead_def api_outcome.case b d ..
  have f: "score_lead loads (Reply (ws1 @ ''```'' @ inner @ ''```'' @ ws2)) now q =
           score_lead loads (Reply (ws1 @ inner @ ws2)) now q"
    unfolding score_lead_def api_outcome.case c d ..
  from a b c d e f show ?thesis by blast
qed

theorem fence_cleanup_witness:
  "list_all is_space [CHR 0x20, CHR 0x0A] \<and>
   fence_safe ([CHR 0x0A] @ ''{\"score\": 8}'' @ [CHR 0x0A]) \<and>
   clean_response ([CHR 0x20, CHR 0x0A] @ ''```json'' @
       ([CHR 0x0A] @ ''{\"score\": 8}'' @ [CHR 0x0A]) @ ''```'' @ [CHR 0x20, CHR 0x0A]) =
     Inr ''{\"score\": 8}'' \<and>
   clean_response ([CHR 0x20, CHR 0x0A] @ ''```'' @
       ([CHR 0x0A] @ ''{\"score\": 8}'' @ [CHR 0x0A]) @ ''```'' @ [CHR 0x20, CHR 0x0A]) =
     Inr ''{\"score\": 8}'' \<and>
   score_lead stub_loads (Reply ([CHR 0x20, CHR 0x0A] @ ''```json'' @
       ([CHR 0x0A] @ ''{\"score\": 8}'' @ [CHR 0x0A]) @ ''```'' @ [CHR 0x20, CHR 0x0A]))
       ''T'' ''hi'' =
     [(''score'', PInt 8), (''status'', PStr ''success''),
      (''original_inquiry'', PStr ''hi''), (''timestamp'', PStr ''T'')]"
  using fence_cleanup [of "[CHR 0x20, CHR 0x0A]" "[CHR 0x20, CHR 0x0A]"
      "[CHR 0x0A] @ ''{\"score\": 8}'' @ [CHR 0x0A]" "[]" stub_loads "''T''" "''hi''"]
  by (simp add: fence_safe_def is_space_def strip_def score_lead_def clean_response_def stub_loads_def enrich_def)

text \<open>
  The claim as written fails for a JSON object with \<open>```\<close> inside a string: wrapped in
  either fence, the text handed to the decoder is cut at that inner \<open>```\<close> and no
  longer decodes.
\<close>

theorem fence_cleanup_counterexample:
  "stub_loads ''{\"a\": \"```\"}'' = Decoded (PDict [(''a'', PStr ''```'')]) \<and>
   clean_response (''```json'' @ ''{\"a\": \"```\"}'' @ ''```'') = Inr ''{\"a\": \"'' \<and>
   clean_response (''```'' @ ''{\"a\": \"```\"}'' @ ''```'') = Inr ''{\"a\": \"'' \<and>
   score_lead stub_loads (Reply (''```json'' @ ''{\"a\": \"```\"}'' @ ''```'')) ''T'' ''hi'' =
     [(''score'', PNone),
      (''status'', PStr ''failed''),
      (''error'', PStr ''JSON parsing error: Unterminated string starting at: line 1 column 7 (char 6)''),
      (''raw_response'', PStr ''{\"a\": \"'')]"
  by (simp add: stub_loads_def clean_response_def strip_def is_space_def split_def item_def
      score_lead_def decode_failure_def)

section \<open>Properties of the decode failure record\<close>










section \<open>Properties of the batch scorer\<close>

lemma fl_lt_trans: "fl_lt x y \<Longrightarrow> fl_lt y z \<Longrightarrow> fl_lt x z"
  by (cases x; cases y; cases z) auto

lemma fl_le_iff_not_lt: "x \<noteq> NaN \<Longrightarrow> y \<noteq> NaN \<Longrightarrow> fl_le y x \<longleftrightarrow> \<not> fl_lt x y"
  by (cases x; cases y) auto

lemma fl_le_trans: "fl_le x y \<Longrightarrow> fl_le y z \<Longrightarrow> fl_le x z"
  by (cases x; cases y; cases z) auto

lemma fl_lt_le_trans: "fl_lt x y \<Longrightarrow> fl_le y z \<Longrightarrow> fl_lt x z"
  by (cases x; cases y; cases z) auto

lemma fl_lt_imp_le: "fl_lt x y \<Longrightarrow> fl_le x y"
  by (cases x; cases y) auto

lemma py_lt_ordered:
  assumes "ordered_score a" and "ordered_score b"
  shows "py_lt (get_score a) (get_score b) = Inr (\<not> score_ge a b)"
  using assms
  by (auto simp: ordered_score_def score_ge_def py_lt_def py_ge_def py_cmp_def fl_le_iff_not_lt)

lemma score_ge_trans: "score_ge a b \<Longrightarrow> score_ge b c \<Longrightarrow> score_ge a c"
  by (auto simp: score_ge_def py_ge_def py_cmp_def split: option.splits intro: fl_le_trans)

lemma fl_le_total: "x \<noteq> NaN \<Longrightarrow> y \<noteq> NaN \<Longrightarrow> \<not> fl_le x y \<Longrightarrow> fl_le y x"
  by (cases x; cases y) auto

lemma score_ge_total: "ordered_score a \<Longrightarrow> ordered_score b \<Longrightarrow> score_ge a b \<or> score_ge b a"
  by (auto simp: ordered_score_def score_ge_def py_ge_def py_cmp_def intro: fl_le_total)

lemma insert_desc_ordered:
  assumes "ordered_score x" and "\<forall>y\<in>set ys. ordered_score y"
  shows "\<exists>zs. insert_desc x ys = Inr zs \<and> mset zs = add_mset x (mset ys) \<and>
           (sorted_wrt score_ge ys \<longrightarrow> sorted_wrt score_ge zs) \<and>
           (\<forall>r. filter (same_score r) zs = filter (same_score r) (x # ys))"
  using assms(2)
proof (induction ys)
  case Nil
  then show ?case by simp
next
  case (Cons y ys)
  then obtain zs where zs: "insert_desc x ys = Inr zs" "mset zs = add_mset x (mset ys)"
    "sorted_wrt score_ge ys \<longrightarrow> sorted_wrt score_ge zs"
    "\<forall>r. filter (same_score r) zs = filter (same_score r) (x # ys)"
    by auto
  from Cons.prems have oy: "ordered_score y" by simp
  have lt: "py_lt (get_score x) (get_score y) = Inr (\<not> score_ge x y)"
    by (rule py_lt_ordered [OF assms(1) oy])
  show ?case
  proof (cases "score_ge x y")
    case True
    have "sorted_wrt score_ge (y # ys) \<longrightarrow> sorted_wrt score_ge (x # y # ys)"
      using True score_ge_trans by auto
    with True lt show ?thesis by simp
  next
    case False
    then have yx: "score_ge y x"
      using score_ge_total [OF assms(1) oy] by blast
    have s: "sorted_wrt score_ge (y # ys) \<longrightarrow> sorted_wrt score_ge (y # zs)"
    proof
      assume a: "sorted_wrt score_ge (y # ys)"
      then have "\<forall>z\<in>set ys. score_ge y z" by simp
      moreover have "set zs = insert x (set ys)"
        using zs(2) by (metis set_mset_add_mset_insert set_mset_mset)
      ultimately have "\<forall>z\<in>set zs. score_ge y z" using yx by simp
      with a zs(3) show "sorted_wrt score_ge (y # zs)" by simp
    qed
    have f: "filter (same_score r) (y # zs) = filter (same_score r) (x # y # ys)" for r
    proof (cases "same_score r x \<and> same_score r y")
      case True
      then have "score_ge x y"
        unfolding same_score_def using score_ge_trans by blast
      with False show ?thesis by simp
    next
      case nb: False
      then show ?thesis using zs(4) by auto
    qed
    from False lt zs(1,2) s f show ?thesis by simp
  qed
qed

lemma sort_desc_ordered:
  assumes "\<forall>x\<in>set xs. ordered_score x"
  shows "\<exists>ys. sort_desc xs = Inr ys \<and> mset ys = mset xs \<and> sorted_wrt score_ge ys \<and>
           (\<forall>r. filter (same_score r) ys = filter (same_score r) xs)"
  using assms
proof (induction xs)
  case Nil
  then show ?case by simp
next
  case (Cons x xs)
  then obtain ys where ys: "sort_desc xs = Inr ys" "mset ys = mset xs" "sorted_wrt score_ge ys"
    "\<forall>r. filter (same_score r) ys = filter (same_score r) xs"
    by auto
  from ys(2) have "set ys = set xs" by (metis set_mset_mset)
  with Cons.prems have "ordered_score x" "\<forall>y\<in>set ys. ordered_score y" by simp_all
  from insert_desc_ordered [OF this] obtain zs where
    zs: "insert_desc x ys = Inr zs" "mset zs = add_mset x (mset ys)"
    "sorted_wrt score_ge ys \<longrightarrow> sorted_wrt score_ge zs"
    "\<forall>r. filter (same_score r) zs = filter (same_score r) (x # ys)"
    by blast
  with ys show ?case by simp
qed

lemma insert_desc_mset: "insert_desc x ys = Inr zs \<Longrightarrow> mset zs = add_mset x (mset ys)"
  by (induction ys arbitrary: zs) (auto split: sum.splits if_splits)

lemma sort_desc_mset: "sort_desc xs = Inr ys \<Longrightarrow> mset ys = mset xs"
  by (induction xs arbitrary: ys) (auto split: sum.splits dest: insert_desc_mset)

lemma insert_desc_error: "insert_desc x ys = Inl e \<Longrightarrow> e = TypeError"
  by (induction ys)
     (auto simp: py_lt_def py_cmp_def split: sum.splits if_splits option.splits)

lemma sort_desc_error: "sort_desc xs = Inl e \<Longrightarrow> e = TypeError"
  by (induction xs) (auto split: sum.splits dest: insert_desc_error)

lemma band_numeric:
  assumes "numeric_score r"
  shows "\<exists>h w c. is_hot (get_score r) = Inr h \<and> is_warm (get_score r) = Inr w \<and>
           is_cold (get_score r) = Inr c"
  using assms
  by (auto simp: numeric_score_def is_hot_def is_warm_def is_cold_def py_ge_def py_le_def
      py_lt_def py_cmp_def)

lemma hot_not_numeric: "\<not> numeric_score r \<Longrightarrow> is_hot (get_score r) = Inl TypeError"
  by (auto simp: numeric_score_def is_hot_def py_ge_def py_cmp_def)

lemma count_band_hot:
  "count_band is_hot rs = (if \<forall>r\<in>set rs. numeric_score r
     then Inr (length (filter (\<lambda>r. is_hot (get_score r) = Inr True) rs)) else Inl TypeError)"
proof (induction rs)
  case Nil
  then show ?case by simp
next
  case (Cons r rs)
  show ?case
  proof (cases "numeric_score r")
    case True
    then obtain h where "is_hot (get_score r) = Inr h" using band_numeric by blast
    with True Cons.IH show ?thesis by auto
  next
    case False
    then show ?thesis by (simp add: hot_not_numeric)
  qed
qed

lemma count_band_numeric:
  assumes "\<forall>r\<in>set rs. numeric_score r" and "band = is_warm \<or> band = is_cold"
  shows "count_band band rs = Inr (length (filter (\<lambda>r. band (get_score r) = Inr True) rs))"
  using assms(1)
proof (induction rs)
  case Nil
  then show ?case by simp
next
  case (Cons r rs)
  then obtain w c where "is_warm (get_score r) = Inr w" "is_cold (get_score r) = Inr c"
    using band_numeric [of r] by auto
  with Cons assms(2) show ?case by auto
qed

lemma one_band:
  assumes "ordered_score r"
  shows "(if is_hot (get_score r) = Inr True then 1 else 0) +
         (if is_warm (get_score r) = Inr True then 1 else 0) +
         (if is_cold (get_score r) = Inr True then 1 else (0::nat)) = 1"
proof -
  from assms obtain x where x: "num_value (get_score r) = Some x" "x \<noteq> NaN"
    unfolding ordered_score_def by blast
  then show ?thesis
    by (cases x)
       (auto simp: is_hot_def is_warm_def is_cold_def py_ge_def py_le_def py_lt_def py_cmp_def)
qed

lemma bands_partition:
  assumes "\<forall>r\<in>set rs. ordered_score r"
  shows "length (filter (\<lambda>r. is_hot (get_score r) = Inr True) rs) +
         length (filter (\<lambda>r. is_warm (get_score r) = Inr True) rs) +
         length (filter (\<lambda>r. is_cold (get_score r) = Inr True) rs) = length rs"
  using assms
proof (induction rs)
  case Nil
  then show ?case by simp
next
  case (Cons r rs)
  then have "ordered_score r" by simp
  from one_band [OF this] Cons show ?case
    by (simp split: if_splits)
qed

lemma py_sum_ints:
  assumes "\<forall>r\<in>set rs. int_value (get_score r) \<noteq> None"
  shows "py_sum rnd (PInt a) (map get_score rs) = Inr (PInt (a + sum_list (map score_int rs)))"
  using assms
proof (induction rs arbitrary: a)
  case Nil
  then show ?case by simp
next
  case (Cons r rs)
  then obtain j where j: "int_value (get_score r) = Some j" by auto
  then have "py_add rnd (PInt a) (get_score r) = Inr (PInt (a + j))"
    by (simp add: py_add_def)
  with Cons j show ?case by (simp add: score_int_def add.assoc)
qed

lemma average_ints:
  assumes "\<forall>r\<in>set rs. int_value (get_score r) \<noteq> None" and "rs \<noteq> []"
  shows "average rnd rs =
     (if \<bar>of_int (sum_list (map score_int rs)) / of_nat (length rs)\<bar> < dbl_limit
      then Inr (PFloat (Finite (rnd (of_int (sum_list (map score_int rs)) / of_nat (length rs)))))
      else Inl OverflowError)"
  using assms(2) py_sum_ints [OF assms(1), of rnd 0]
  by (simp add: average_def py_truediv_def)

lemma sum_bound:
  fixes xs :: "int list" and L :: rat
  assumes "\<forall>x\<in>set xs. \<bar>of_int x\<bar> < L" and "xs \<noteq> []"
  shows "\<bar>of_int (sum_list xs)\<bar> < of_nat (length xs) * L"
  using assms
proof (induction xs)
  case Nil
  then show ?case by simp
next
  case (Cons x xs)
  show ?case
  proof (cases "xs = []")
    case True
    with Cons.prems show ?thesis by simp
  next
    case False
    with Cons have "\<bar>of_int (sum_list xs)\<bar> < of_nat (length xs) * L" by simp
    moreover from Cons.prems have "\<bar>of_int x\<bar> < L" by simp
    moreover have "\<bar>(of_int (x + sum_list xs) :: rat)\<bar> \<le> \<bar>of_int x\<bar> + \<bar>of_int (sum_list xs)\<bar>"
      by simp
    ultimately show ?thesis by (simp add: algebra_simps)
  qed
qed

lemma average_int_scored:
  assumes "\<forall>r\<in>set rs. int_scored r" and "rs \<noteq> []"
  shows "average rnd rs =
     Inr (PFloat (Finite (rnd (of_int (sum_list (map score_int rs)) / of_nat (length rs)))))"
proof -
  have iv: "\<forall>r\<in>set rs. int_value (get_score r) \<noteq> None"
    using assms(1) by (auto simp: int_scored_def split: option.splits)
  have "\<forall>x\<in>set (map score_int rs). \<bar>of_int x\<bar> < dbl_limit"
    using assms(1) by (auto simp: int_scored_def score_int_def split: option.splits)
  moreover have "map score_int rs \<noteq> []" using assms(2) by simp
  ultimately have "\<bar>of_int (sum_list (map score_int rs))\<bar> < of_nat (length (map score_int rs)) * dbl_limit"
    by (rule sum_bound)
  then have "\<bar>of_int (sum_list (map score_int rs)) / of_nat (length rs)\<bar> < dbl_limit"
    using assms(2) by (simp add: pos_divide_less_eq mult.commute)
  then show ?thesis
    using average_ints [OF iv assms(2), of rnd] by simp
qed

text \<open>What \<open>score_multiple_leads\<close> comes to.\<close>

lemma score_multiple_leads_unfold:
  "score_multiple_leads loads api now rnd qs =
     (case sort_desc (filter is_success (score_all loads api now qs)) of
        Inl e \<Rightarrow> Inl TypeError
      | Inr ys \<Rightarrow>
          if \<forall>r\<in>set ys. numeric_score r then
            (case average rnd ys of
               Inl e \<Rightarrow> Inl e
             | Inr avg \<Rightarrow>
                 Inr \<lparr>all_results = score_all loads api now qs,
                      sorted_by_priority = ys,
                      analytics =
                        \<lparr>total_leads = length (score_all loads api now qs),
                         scored_successfully = length ys,
                         hot_leads_count =
                           length (filter (\<lambda>r. is_hot (get_score r) = Inr True) ys),
                         warm_leads_count =
                           length (filter (\<lambda>r. is_warm (get_score r) = Inr True) ys),
                         cold_leads_count =
                           length (filter (\<lambda>r. is_cold (get_score r) = Inr True) ys),
                         average_score = avg\<rparr>\<rparr>)
          else Inl TypeError)"
proof (cases "sort_desc (filter is_success (score_all loads api now qs))")
  case (Inl e)
  then have "e = TypeError" by (rule sort_desc_error)
  with Inl show ?thesis by (simp add: score_multiple_leads_def Let_def)
next
  case (Inr ys)
  show ?thesis
  proof (cases "\<forall>r\<in>set ys. numeric_score r")
    case True
    then have "count_band is_warm ys =
                 Inr (length (filter (\<lambda>r. is_warm (get_score r) = Inr True) ys))"
      and "count_band is_cold ys =
                 Inr (length (filter (\<lambda>r. is_cold (get_score r) = Inr True) ys))"
      by (simp_all add: count_band_numeric)
    with Inr True show ?thesis
      by (simp add: score_multiple_leads_def Let_def count_band_hot split: sum.splits)
  next
    case False
    then have "count_band is_hot ys = Inl TypeError"
      unfolding count_band_hot by auto
    with Inr False show ?thesis
      by (auto simp: score_multiple_leads_def Let_def)
  qed
qed

lemma score_multiple_leads_returns:
  assumes "score_multiple_leads loads api now rnd qs = Inr b"
  shows "\<exists>ys avg. sort_desc (filter is_success (score_all loads api now qs)) = Inr ys \<and>
           (\<forall>r\<in>set ys. numeric_score r) \<and> average rnd ys = Inr avg \<and>
           b = \<lparr>all_results = score_all loads api now qs,
                sorted_by_priority = ys,
                analytics =
                  \<lparr>total_leads = length (score_all loads api now qs),
                   scored_successfully = length ys,
                   hot_leads_count = length (filter (\<lambda>r. is_hot (get_score r) = Inr True) ys),
                   warm_leads_count = length (filter (\<lambda>r. is_warm (get_score r) = Inr True) ys),
                   cold_leads_count = length (filter (\<lambda>r. is_cold (get_score r) = Inr True) ys),
                   average_score = avg\<rparr>\<rparr>"
  using assms unfolding score_multiple_leads_unfold
  by (auto split: sum.splits if_splits)

lemma perm_filter_length:
  "mset ys = mset xs \<Longrightarrow> length (filter P ys) = length (filter P xs)"
  by (metis mset_filter size_mset)

lemma perm_sum_list:
  fixes f :: "'a \<Rightarrow> int"
  shows "mset ys = mset xs \<Longrightarrow> sum_list (map f ys) = sum_list (map f xs)"
  by (metis mset_map sum_mset_sum_list)

lemma score_all_nth:
  "i < length qs \<Longrightarrow>
   score_all loads api now qs ! i = score_lead loads (api (Suc i) (qs ! i)) (now (Suc i)) (qs ! i)"
  by (simp add: score_all_def nth_enumerate_eq)

lemma score_all_length: "length (score_all loads api now qs) = length qs"
  by (simp add: score_all_def)

lemma int_scored_ordered: "int_scored r \<Longrightarrow> ordered_score r"
  by (cases "get_score r") (auto simp: int_scored_def ordered_score_def)

lemma numeric_ordered: "numeric_score r \<Longrightarrow> get_score r \<noteq> PFloat NaN \<Longrightarrow> ordered_score r"
  by (cases "get_score r") (auto simp: numeric_score_def ordered_score_def)

lemma ordered_numeric: "ordered_score r \<Longrightarrow> numeric_score r"
  by (auto simp: numeric_score_def ordered_score_def)

lemma int_scored_returns:
  assumes "\<forall>r\<in>set (filter is_success (score_all loads api now qs)). int_scored r"
  shows "\<exists>b. score_multiple_leads loads api now rnd qs = Inr b"
proof -
  let ?succ = "filter is_success (score_all loads api now qs)"
  from assms have "\<forall>r\<in>set ?succ. ordered_score r"
    using int_scored_ordered by blast
  from sort_desc_ordered [OF this] obtain ys where
    ys: "sort_desc ?succ = Inr ys" "mset ys = mset ?succ" by blast
  from ys(2) have set: "set ys = set ?succ" by (metis set_mset_mset)
  with assms have scored: "\<forall>r\<in>set ys. int_scored r" by simp
  then have num: "\<forall>r\<in>set ys. numeric_score r"
    using int_scored_ordered ordered_numeric by blast
  have "\<exists>avg. average rnd ys = Inr avg"
  proof (cases "ys = []")
    case True
    then show ?thesis by (simp add: average_def)
  next
    case False
    with scored show ?thesis by (simp add: average_int_scored)
  qed
  then obtain avg where "average rnd ys = Inr avg" by blast
  with ys(1) num show ?thesis
    unfolding score_multiple_leads_unfold by simp
qed

text \<open>
  C1 (amended). \<open>score_multiple_leads\<close> returns whenever every successful result's score is
  absent or an integer that fits a double. Whenever it returns, \<open>all_results\<close> holds one
  record per inquiry, in input order, whatever the mix of successes and failures, and
  \<open>sorted_by_priority\<close> holds exactly the records of \<open>all_results\<close> with
  \<open>status = success\<close>; if none of their scores is NaN it is sorted by score, descending,
  with equal scores in their input order. A missing score is the score 0.
\<close>

theorem batch_results_and_priority_order:
  "((\<forall>r\<in>set (filter is_success (score_all loads api now qs)). int_scored r) \<longrightarrow>
      (\<exists>b. score_multiple_leads loads api now rnd qs = Inr b)) \<and>
   (\<forall>b. score_multiple_leads loads api now rnd qs = Inr b \<longrightarrow>
      length (all_results b) = length qs \<and>
      (\<forall>i<length qs. all_results b ! i =
          score_lead loads (api (Suc i) (qs ! i)) (now (Suc i)) (qs ! i)) \<and>
      mset (sorted_by_priority b) = mset (filter is_success (all_results b)) \<and>
      (\<forall>r\<in>set (sorted_by_priority b). is_success r) \<and>
      ((\<forall>r\<in>set (all_results b). is_success r \<longrightarrow> get_score r \<noteq> PFloat NaN) \<longrightarrow>
         sorted_wrt score_ge (sorted_by_priority b) \<and>
         (\<forall>r. filter (same_score r) (sorted_by_priority b) =
              filter (same_score r) (filter is_success (all_results b))))) \<and>
   (\<forall>r. map_of r ''score'' = None \<longrightarrow> get_score r = PInt 0)"
proof (intro conjI allI impI)
  assume "\<forall>r\<in>set (filter is_success (score_all loads api now qs)). int_scored r"
  then show "\<exists>b. score_multiple_leads loads api now rnd qs = Inr b"
    by (rule int_scored_returns)
next
  fix r :: pydict
  assume "map_of r ''score'' = None"
  then show "get_score r = PInt 0" by (simp add: get_score_def)
next
  fix b
  assume ret: "score_multiple_leads loads api now rnd qs = Inr b"
  let ?succ = "filter is_success (score_all loads api now qs)"
  from score_multiple_leads_returns [OF ret] obtain ys where
    ys: "sort_desc ?succ = Inr ys" "\<forall>r\<in>set ys. numeric_score r"
    and all: "all_results b = score_all loads api now qs"
    and pri: "sorted_by_priority b = ys"
    by auto
  from ys(1) have perm: "mset ys = mset ?succ" by (rule sort_desc_mset)
  then have set: "set ys = set ?succ" by (metis set_mset_mset)
  show "length (all_results b) = length qs"
    by (simp add: all score_all_length)
  show "mset (sorted_by_priority b) = mset (filter is_success (all_results b))"
    by (simp add: all pri perm)
  show "\<forall>r\<in>set (sorted_by_priority b). is_success r"
    by (simp add: pri set)
  {
    fix i
    assume "i < length qs"
    then show "all_results b ! i =
        score_lead loads (api (Suc i) (qs ! i)) (now (Suc i)) (qs ! i)"
      by (simp add: all score_all_nth)
  }
  {
    assume "\<forall>r\<in>set (all_results b). is_success r \<longrightarrow> get_score r \<noteq> PFloat NaN"
    with ys(2) set all have "\<forall>r\<in>set ?succ. ordered_score r"
      using numeric_ordered by auto
    from sort_desc_ordered [OF this] ys(1) have
      srt: "sorted_wrt score_ge ys"
      and stb: "\<forall>r. filter (same_score r) ys = filter (same_score r) ?succ"
      by auto
    from srt show "sorted_wrt score_ge (sorted_by_priority b)" by (simp add: pri)
    fix r
    from stb show "filter (same_score r) (sorted_by_priority b) =
        filter (same_score r) (filter is_success (all_results b))"
      by (simp add: pri all)
  }
qed

lemmas eval_batch =
  score_multiple_leads_def Let_def score_all_def enumerate_eq_zip score_lead_def echo_def
  stub_now_def clean_response_def strip_def is_space_def stub_loads_def enrich_def
  decode_failure_def call_failure_def is_success_def get_score_def
  is_hot_def is_warm_def is_cold_def py_ge_def py_le_def py_lt_def py_cmp_def
  average_def py_add_def py_truediv_def dbl_limit_def

theorem batch_results_and_priority_order_witness:
  "\<exists>b. score_multiple_leads stub_loads echo stub_now (\<lambda>q. q)
          [''{\"score\": 5, \"priority\": \"MEDIUM\"}'', ''not json'', ''{\"score\": 8}'',
           ''down'', ''{\"score\": 5}''] = Inr b \<and>
        length (all_results b) = 5 \<and>
        map get_score (sorted_by_priority b) = [PInt 8, PInt 5, PInt 5] \<and>
        map (\<lambda>r. map_of r ''priority'') (sorted_by_priority b) =
          [None, Some (PStr ''MEDIUM''), None] \<and>
        sorted_wrt score_ge (sorted_by_priority b)"
  using batch_results_and_priority_order [of stub_loads echo stub_now
      "[''{\"score\": 5, \"priority\": \"MEDIUM\"}'', ''not json'', ''{\"score\": 8}'',
        ''down'', ''{\"score\": 5}'']" "\<lambda>q. q"]
  by (simp add: eval_batch int_scored_def score_ge_def)

text \<open>
  The claim as written fails on a batch in which a successful result has a null score:
  nothing is returned.
\<close>

theorem batch_results_and_priority_order_counterexample:
  "score_multiple_leads stub_loads echo stub_now (\<lambda>q. q)
     [''not json'', ''{\"score\": null}''] = Inl TypeError"
  by (simp add: eval_batch)

text \<open>
  C2 (amended). Whenever \<open>score_multiple_leads\<close> returns and no successful result's score
  is NaN, the three band counts add up to \<open>scored_successfully\<close>, which is the number of
  successful results; hot counts the successful results with score \<open>>= 7\<close>, warm those
  with \<open>4 <= score < 7\<close>, cold those with \<open>score < 4\<close>.
\<close>

theorem band_counts_partition:
  assumes "score_multiple_leads loads api now rnd qs = Inr b"
    and "\<forall>r\<in>set (all_results b). is_success r \<longrightarrow> get_score r \<noteq> PFloat NaN"
  shows "hot_leads_count (analytics b) + warm_leads_count (analytics b) +
           cold_leads_count (analytics b) = scored_successfully (analytics b) \<and>
         scored_successfully (analytics b) = length (filter is_success (all_results b)) \<and>
         hot_leads_count (analytics b) =
           length (filter (\<lambda>r. is_success r \<and> is_hot (get_score r) = Inr True) (all_results b)) \<and>
         warm_leads_count (analytics b) =
           length (filter (\<lambda>r. is_success r \<and> is_warm (get_score r) = Inr True) (all_results b)) \<and>
         cold_leads_count (analytics b) =
           length (filter (\<lambda>r. is_success r \<and> is_cold (get_score r) = Inr True) (all_results b))"
proof -
  let ?succ = "filter is_success (score_all loads api now qs)"
  from score_multiple_leads_returns [OF assms(1)] obtain ys avg where
    ys: "sort_desc ?succ = Inr ys" "\<forall>r\<in>set ys. numeric_score r"
    and b: "b = \<lparr>all_results = score_all loads api now qs,
                sorted_by_priority = ys,
                analytics =
                  \<lparr>total_leads = length (score_all loads api now qs),
                   scored_successfully = length ys,
                   hot_leads_count = length (filter (\<lambda>r. is_hot (get_score r) = Inr True) ys),
                   warm_leads_count = length (filter (\<lambda>r. is_warm (get_score r) = Inr True) ys),
                   cold_leads_count = length (filter (\<lambda>r. is_cold (get_score r) = Inr True) ys),
                   average_score = avg\<rparr>\<rparr>"
    by blast
  from ys(1) have perm: "mset ys = mset ?succ" by (rule sort_desc_mset)
  then have set: "set ys = set ?succ" by (metis set_mset_mset)
  from assms(2) b have "\<forall>r\<in>set ?succ. get_score r \<noteq> PFloat NaN" by simp
  with ys(2) set have "\<forall>r\<in>set ys. ordered_score r"
    using numeric_ordered by auto
  from bands_partition [OF this] have part:
    "length (filter (\<lambda>r. is_hot (get_score r) = Inr True) ys) +
     length (filter (\<lambda>r. is_warm (get_score r) = Inr True) ys) +
     length (filter (\<lambda>r. is_cold (get_score r) = Inr True) ys) = length ys" .
  have len: "length ys = length ?succ"
    using perm by (metis size_mset)
  have cnt: "length (filter P ys) = length (filter (\<lambda>r. is_success r \<and> P r) (score_all loads api now qs))" for P
    using perm_filter_length [OF perm, of P] by simp
  show ?thesis
    unfolding b using part len cnt by simp
qed

theorem band_counts_partition_witness:
  "\<exists>b. score_multiple_leads stub_loads echo stub_now (\<lambda>q. q)
          [''{\"score\": 5}'', ''not json'', ''{\"score\": 8}'', ''{}'', ''{\"score\": 2}''] = Inr b \<and>
        hot_leads_count (analytics b) = 1 \<and> warm_leads_count (analytics b) = 1 \<and>
        cold_leads_count (analytics b) = 2 \<and> scored_successfully (analytics b) = 4"
  using band_counts_partition [of stub_loads echo stub_now "\<lambda>q. q"
      "[''{\"score\": 5}'', ''not json'', ''{\"score\": 8}'', ''{}'', ''{\"score\": 2}'']"]
  by (simp add: eval_batch)

text \<open>
  The claim as written fails on a response whose score is NaN, which \<open>json.loads\<close>
  accepts: the result is successful and belongs to no band.
\<close>

theorem band_counts_partition_counterexample:
  "score_multiple_leads stub_loads echo stub_now (\<lambda>q. q) [''{\"score\": NaN}''] =
     Inr \<lparr>all_results =
            [[(''score'', PFloat NaN), (''status'', PStr ''success''),
              (''original_inquiry'', PStr ''{\"score\": NaN}''),
              (''timestamp'', PStr ''2024-03-09T14:05:00'')]],
          sorted_by_priority =
            [[(''score'', PFloat NaN), (''status'', PStr ''success''),
              (''original_inquiry'', PStr ''{\"score\": NaN}''),
              (''timestamp'', PStr ''2024-03-09T14:05:00'')]],
          analytics =
            \<lparr>total_leads = 1, scored_successfully = 1, hot_leads_count = 0,
             warm_leads_count = 0, cold_leads_count = 0, average_score = PFloat NaN\<rparr>\<rparr>"
  by (simp add: eval_batch to_float_def)

text \<open>
  C6 (amended). Whenever \<open>score_multiple_leads\<close> returns and every successful result's
  score is absent or an integer (a \<open>bool\<close> counting as 0 or 1), \<open>average_score\<close> is the sum
  of the successful results' scores, a missing score counting 0, divided by their number
  and rounded to a double by the division; it is the \<open>int\<close> 0 when no result is
  successful.
\<close>

theorem average_score_is_mean:
  assumes "score_multiple_leads loads api now rnd qs = Inr b"
    and "\<forall>r\<in>set (all_results b). is_success r \<longrightarrow> int_value (get_score r) \<noteq> None"
  shows "average_score (analytics b) =
           (if filter is_success (all_results b) = [] then PInt 0
            else PFloat (Finite (rnd
                   (of_int (sum_list (map score_int (filter is_success (all_results b)))) /
                    of_nat (length (filter is_success (all_results b)))))))"
proof -
  let ?succ = "filter is_success (score_all loads api now qs)"
  from score_multiple_leads_returns [OF assms(1)] obtain ys avg where
    ys: "sort_desc ?succ = Inr ys" and avg: "average rnd ys = Inr avg"
    and all: "all_results b = score_all loads api now qs"
    and res: "average_score (analytics b) = avg"
    by auto
  from ys have perm: "mset ys = mset ?succ" by (rule sort_desc_mset)
  then have set: "set ys = set ?succ" by (metis set_mset_mset)
  have len: "length ys = length ?succ" using perm by (metis size_mset)
  have sum: "sum_list (map score_int ys) = sum_list (map score_int ?succ)"
    by (rule perm_sum_list [OF perm])
  show ?thesis
  proof (cases "?succ = []")
    case True
    with len have "ys = []" by simp
    with avg True res all show ?thesis by (simp add: average_def)
  next
    case False
    with len have ne: "ys \<noteq> []" by auto
    from assms(2) all set have "\<forall>r\<in>set ys. int_value (get_score r) \<noteq> None" by simp
    from average_ints [OF this ne, of rnd] avg
    have "avg = PFloat (Finite (rnd (of_int (sum_list (map score_int ys)) / of_nat (length ys))))"
      by (simp split: if_splits)
    with False res all len sum show ?thesis by simp
  qed
qed

theorem average_score_is_mean_witness:
  "\<exists>b. score_multiple_leads stub_loads echo stub_now (\<lambda>q. q)
          [''{\"score\": 5}'', ''down'', ''{\"score\": 8}'', ''{}'', ''{\"score\": 2}''] = Inr b \<and>
        average_score (analytics b) = PFloat (Finite (15 / 4))"
  using average_score_is_mean [of stub_loads echo stub_now "\<lambda>q. q"
      "[''{\"score\": 5}'', ''down'', ''{\"score\": 8}'', ''{}'', ''{\"score\": 2}'']"]
  by (simp add: eval_batch score_int_def)

text \<open>
  The claim as written fails where no analytics are returned at all: one null score among
  the successful results.
\<close>

theorem average_score_is_mean_counterexample:
  "score_multiple_leads stub_loads echo stub_now (\<lambda>q. q)
     [''{\"score\": 8}'', ''{\"score\": null}''] = Inl TypeError"
  by (simp add: eval_batch)

text \<open>
  C9. The response \<open>{"score": null}\<close> is scored with \<open>status = success\<close> and the score
  \<open>None\<close>; a batch of it and another successful result raises \<open>TypeError\<close>. In general
  a batch raises \<open>TypeError\<close> as soon as one successful result has a score that is not a
  number, so \<open>score_multiple_leads\<close> returns only when every successful result's score is
  absent or a number.
\<close>

theorem null_score_raises_type_error:
  "is_success (score_lead stub_loads (Reply ''{\"score\": null}'') ts q) \<and>
   get_score (score_lead stub_loads (Reply ''{\"score\": null}'') ts q) = PNone \<and>
   score_multiple_leads stub_loads echo now rnd [''{\"score\": null}'', ''{\"score\": 8}''] =
     Inl TypeError \<and>
   ((\<exists>r\<in>set (score_all loads api now' qs). is_success r \<and> \<not> numeric_score r) \<longrightarrow>
      score_multiple_leads loads api now' rnd qs = Inl TypeError) \<and>
   (\<forall>b. score_multiple_leads loads api now' rnd qs = Inr b \<longrightarrow>
      (\<forall>r\<in>set (all_results b). is_success r \<longrightarrow> numeric_score r))"
proof (intro conjI allI impI)
  show "is_success (score_lead stub_loads (Reply ''{\"score\": null}'') ts q)"
    by (simp add: eval_batch)
  show "get_score (score_lead stub_loads (Reply ''{\"score\": null}'') ts q) = PNone"
    by (simp add: eval_batch)
  show "score_multiple_leads stub_loads echo now rnd [''{\"score\": null}'', ''{\"score\": 8}''] =
     Inl TypeError"
    by (simp add: eval_batch)
next
  let ?succ = "filter is_success (score_all loads api now' qs)"
  assume "\<exists>r\<in>set (score_all loads api now' qs). is_success r \<and> \<not> numeric_score r"
  then have bad: "\<exists>r\<in>set ?succ. \<not> numeric_score r" by auto
  show "score_multiple_leads loads api now' rnd qs = Inl TypeError"
  proof (cases "sort_desc ?succ")
    case (Inl e)
    then show ?thesis unfolding score_multiple_leads_unfold by simp
  next
    case (Inr ys)
    then have "set ys = set ?succ"
      using sort_desc_mset by (metis set_mset_mset)
    with bad have "\<not> (\<forall>r\<in>set ys. numeric_score r)" by blast
    with Inr show ?thesis unfolding score_multiple_leads_unfold by auto
  qed
next
  fix b
  let ?succ = "filter is_success (score_all loads api now' qs)"
  assume ret: "score_multiple_leads loads api now' rnd qs = Inr b"
  from score_multiple_leads_returns [OF ret] obtain ys where
    ys: "sort_desc ?succ = Inr ys" "\<forall>r\<in>set ys. numeric_score r"
    and all: "all_results b = score_all loads api now' qs"
    by auto
  from ys(1) have "set ys = set ?succ"
    using sort_desc_mset by (metis set_mset_mset)
  with ys(2) all show "\<forall>r\<in>set (all_results b). is_success r \<longrightarrow> numeric_score r"
    by simp
qed

theorem null_score_raises_type_error_witness:
  "score_multiple_leads stub_loads echo stub_now (\<lambda>q. q) [''{\"score\": 8}'', ''{\"score\": null}'', ''{}''] =
     Inl TypeError \<and>
   (\<exists>b. score_multiple_leads stub_loads echo stub_now (\<lambda>q. q) [''{\"score\": 8}'', ''{}'', ''[]''] = Inr b \<and>
      list_all numeric_score (filter is_success (all_results b)) \<and>
      length (filter is_success (all_results b)) = 2)"
  using null_score_raises_type_error [of "''T''" "''hi''" stub_now "\<lambda>q. q" stub_loads echo stub_now
      "[''{\"score\": 8}'', ''{\"score\": null}'', ''{}'']"]
    null_score_raises_type_error [of "''T''" "''hi''" stub_now "\<lambda>q. q" stub_loads echo stub_now
      "[''{\"score\": 8}'', ''{}'', ''[]'']"]
  by (simp add: eval_batch numeric_score_def)

section \<open>Properties of the persister\<close>

lemma below_ten: "(k::nat) < 10 \<Longrightarrow> k \<in> {0, 1, 2, 3, 4, 5, 6, 7, 8, 9}"
  by (simp only: insert_iff empty_iff) arith

lemma of_char_digit: "(of_char (digit n) :: nat) = 48 + n mod 10"
proof -
  have "n mod 10 \<in> {0, 1, 2, 3, 4, 5, 6, 7, 8, 9}"
    by (rule below_ten) simp
  then show ?thesis
    unfolding digit_def by (elim insertE emptyE) simp_all
qed

lemma digit_is_digit: "is_digit (digit n)"
  unfolding is_digit_def of_char_digit by simp

lemma strftime_compact_shape:
  "length (strftime_compact t) = 15 \<and>
   list_all is_digit (take 8 (strftime_compact t)) \<and>
   strftime_compact t ! 8 = CHR ''_'' \<and>
   list_all is_digit (drop 9 (strftime_compact t))"
  by (simp add: strftime_compact_def pad2_def pad4_def digit_is_digit)

lemma two_digits: "(n::nat) < 100 \<Longrightarrow> 10 * (n div 10 mod 10) + n mod 10 = n"
proof -
  assume "n < 100"
  then have "n div 10 < 10" by simp
  then have "n div 10 mod 10 = n div 10" by simp
  then show ?thesis by simp
qed

lemma four_digits:
  "(n::nat) < 10000 \<Longrightarrow>
   10 * (10 * (10 * (n div 1000 mod 10) + n div 100 mod 10) + n div 10 mod 10) + n mod 10 = n"
proof -
  assume n: "n < 10000"
  then have "n div 1000 < 10" by simp
  then have a: "n div 1000 mod 10 = n div 1000" by simp
  have b: "n div 1000 = n div 100 div 10" by (simp add: div_mult2_eq)
  have c: "n div 100 = n div 10 div 10" by (simp add: div_mult2_eq)
  have "10 * (n div 100 div 10) + n div 100 mod 10 = n div 100" by simp
  moreover have "n div 100 div 10 mod 10 = n div 100 div 10"
    using a unfolding b .
  ultimately have e1: "10 * (n div 1000 mod 10) + n div 100 mod 10 = n div 100"
    unfolding b by (simp only:)
  have "10 * (n div 10 div 10) + n div 10 mod 10 = n div 10" by simp
  then have e2: "10 * (n div 100) + n div 10 mod 10 = n div 10"
    by (simp only: c)
  have e3: "10 * (n div 10) + n mod 10 = n" by simp
  show ?thesis by (simp only: e1 e2 e3)
qed

lemma decimal_pad2: "n < 100 \<Longrightarrow> decimal (pad2 n) = n"
proof -
  assume n: "n < 100"
  have "decimal (pad2 n) = 10 * (n div 10 mod 10) + n mod 10"
    by (simp add: decimal_def pad2_def of_char_digit)
  with n show ?thesis by (simp only: two_digits)
qed

lemma decimal_pad4: "n < 10000 \<Longrightarrow> decimal (pad4 n) = n"
proof -
  assume n: "n < 10000"
  have "decimal (pad4 n) =
      10 * (10 * (10 * (n div 1000 mod 10) + n div 100 mod 10) + n div 10 mod 10) + n mod 10"
    by (simp only: decimal_def pad4_def of_char_digit foldl.simps add_diff_cancel_left'
        mult_0_right add_0)
  with n show ?thesis by (simp only: four_digits)
qed

lemma strftime_compact_fields:
  assumes "clock_in_range t"
  shows "decimal (take 4 (strftime_compact t)) = year t \<and>
         decimal (take 2 (drop 4 (strftime_compact t))) = month t \<and>
         decimal (take 2 (drop 6 (strftime_compact t))) = day t \<and>
         decimal (take 2 (drop 9 (strftime_compact t))) = hour t \<and>
         decimal (take 2 (drop 11 (strftime_compact t))) = minute t \<and>
         decimal (take 2 (drop 13 (strftime_compact t))) = second t"
proof -
  have p2: "length (pad2 n) = 2" for n by (simp add: pad2_def)
  have p4: "length (pad4 n) = 4" for n by (simp add: pad4_def)
  from assms have "year t < 10000" "month t < 100" "day t < 100" "hour t < 100"
    "minute t < 100" "second t < 100"
    by (simp_all add: clock_in_range_def)
  then show ?thesis
    by (simp add: strftime_compact_def p2 p4 decimal_pad2 decimal_pad4)
qed

text \<open>
  C8. When the file can be opened, \<open>save_lead_scores\<close> writes the results to it and
  returns its name: the name given, or, when none is given, \<open>lead_scores_\<close>, the current
  time as eight digits (year, month, day), an underscore and six digits (hour, minute,
  second), and \<open>.json\<close>.
\<close>

theorem save_lead_scores_filename:
  assumes "clock_in_range now"
    and "can_open (case filename of
                     None \<Rightarrow> ''lead_scores_'' @ strftime_compact now @ ''.json''
                   | Some given \<Rightarrow> given)"
  shows "\<exists>name. save_lead_scores dump can_open now fs results filename =
                  Inr (fs(name \<mapsto> dump results), name) \<and>
           (\<forall>given. filename = Some given \<longrightarrow> name = given) \<and>
           (filename = None \<longrightarrow>
              (\<exists>stamp. name = ''lead_scores_'' @ stamp @ ''.json'' \<and>
                 stamp = strftime_compact now \<and> length stamp = 15 \<and>
                 list_all is_digit (take 8 stamp) \<and> stamp ! 8 = CHR ''_'' \<and>
                 list_all is_digit (drop 9 stamp) \<and>
                 decimal (take 4 stamp) = year now \<and>
                 decimal (take 2 (drop 4 stamp)) = month now \<and>
                 decimal (take 2 (drop 6 stamp)) = day now \<and>
                 decimal (take 2 (drop 9 stamp)) = hour now \<and>
                 decimal (take 2 (drop 11 stamp)) = minute now \<and>
                 decimal (take 2 (drop 13 stamp)) = second now))"
proof (cases filename)
  case None
  with assms(2) have "save_lead_scores dump can_open now fs results filename =
      Inr (fs(''lead_scores_'' @ strftime_compact now @ ''.json'' \<mapsto> dump results),
           ''lead_scores_'' @ strftime_compact now @ ''.json'')"
    by (simp add: save_lead_scores_def Let_def)
  with None strftime_compact_shape [of now] strftime_compact_fields [OF assms(1)]
  show ?thesis by blast
next
  case (Some given)
  with assms(2) have "save_lead_scores dump can_open now fs results filename =
      Inr (fs(given \<mapsto> dump results), given)"
    by (simp add: save_lead_scores_def Let_def)
  with Some show ?thesis by simp
qed

theorem save_lead_scores_filename_witness:
  "clock_in_range \<lparr>year = 2024, month = 3, day = 9, hour = 14, minute = 5, second = 0\<rparr> \<and>
   save_lead_scores (\<lambda>r. ''{}'') (\<lambda>p. True)
       \<lparr>year = 2024, month = 3, day = 9, hour = 14, minute = 5, second = 0\<rparr>
       Map.empty () None =
     Inr (Map.empty(''lead_scores_20240309_140500.json'' \<mapsto> ''{}''),
          ''lead_scores_20240309_140500.json'') \<and>
   save_lead_scores (\<lambda>r. ''{}'') (\<lambda>p. p = ''out.json'')
       \<lparr>year = 2024, month = 3, day = 9, hour = 14, minute = 5, second = 0\<rparr>
       Map.empty () (Some ''out.json'') =
     Inr (Map.empty(''out.json'' \<mapsto> ''{}''), ''out.json'')"
  using save_lead_scores_filename
      [of "\<lparr>year = 2024, month = 3, day = 9, hour = 14, minute = 5, second = 0\<rparr>"
          "\<lambda>p. True" None "\<lambda>r. ''{}''" Map.empty "()"]
    save_lead_scores_filename
      [of "\<lparr>year = 2024, month = 3, day = 9, hour = 14, minute = 5, second = 0\<rparr>"
          "\<lambda>p. p = ''out.json''" "Some ''out.json''" "\<lambda>r. ''{}''" Map.empty "()"]
  by (simp add: clock_in_range_def save_lead_scores_def Let_def strftime_compact_def pad2_def pad4_def
      digit_def)

text \<open>When the file cannot be opened the exception leaves the function.\<close>

lemma save_lead_scores_oserror:
  "\<not> can_open (case filename of
                   None \<Rightarrow> ''lead_scores_'' @ strftime_compact now @ ''.json''
                 | Some given \<Rightarrow> given) \<Longrightarrow>
   save_lead_scores dump can_open now fs results filename = Inl OSError"
  by (simp add: save_lead_scores_def Let_def)

end
